theory Spec2Isabelle
  imports Main "HOL-Library.List_Lexorder" "HOL-Library.Char_ord"
begin

section \<open>Data model\<close>

text \<open>
  The Go sources under \<^verbatim>\<open>internal/postgres/rls.go\<close> hold four compilation units: the
  \<^verbatim>\<open>RLSManager\<close> (package postgres), the \<^verbatim>\<open>Connection\<close> with \<^verbatim>\<open>WithTransaction\<close>, the GORM
  helpers \<^verbatim>\<open>AutoMigrate\<close> / \<^verbatim>\<open>CreateServiceRoles\<close>, and the \<^verbatim>\<open>Migrator\<close> (package database).
  They are embedded over one explicit database state. A Go \<^verbatim>\<open>error\<close> is its message,
  \<^verbatim>\<open>nil\<close> is \<open>None\<close>; Go strings are byte strings and \<open>(<)\<close> on them is the
  lexicographic order of HOL-Library.List_Lexorder over the byte order of Char_ord.
\<close>

text \<open>\<^verbatim>\<open>type Migration struct { Version, Description, SQL string }\<close>\<close>

record Migration =
  Version :: string
  Description :: string
  SQL :: string

text \<open>
  \<^verbatim>\<open>type MigrationRecord struct { Version; AppliedAt time.Time; Description }\<close>. The fields
  carry the prefix \<open>Rec\<close> because a field name is a constant of the theory; a
  \<^verbatim>\<open>time.Time\<close> is a number of clock ticks.
\<close>

record MigrationRecord =
  RecVersion :: string
  AppliedAt :: nat
  RecDescription :: string

text \<open>\<^verbatim>\<open>type PolicyConfig struct { Name, Table, Command, Role, Using, WithCheck string }\<close>\<close>

record PolicyConfig =
  Name :: string
  Table :: string
  Command :: string
  Role :: string
  Using :: string
  WithCheck :: string

text \<open>
  Objects of the catalogue that the declarative statements of \<^verbatim>\<open>AutoMigrate\<close> create.
\<close>

datatype object =
    Extension string
  | TableOf string
  | Constraint string string
  | Function string
  | Trigger string string

text \<open>
  The statements the program sends to the database, one constructor per query text of
  the source, with the values that \<^verbatim>\<open>fmt.Sprintf\<close> or the driver puts into the text as
  arguments. The texts stand at the functions that issue them.
\<close>

datatype stmt =
    CreateLedgerTable
  | SelectLedger
  | MigrationSQL string
  | InsertLedger string string nat
  | AlterEnableRLS string
  | AlterDisableRLS string
  | CreatePolicyStmt PolicyConfig
  | DropPolicyStmt string string
  | RoleExists string
  | CreateRole string string
  | Grant string string string
  | Revoke string string string
  | CreateExtension string
  | GormAutoMigrate "string list"
  | AddConstraintIfAbsent string string
  | CreateOrReplaceFunction string
  | RecreateTrigger string string
  | DoCreateRoleIfAbsent string string
  | GrantScript "(string \<times> string \<times> string) list"

text \<open>Calls on \<^verbatim>\<open>*sql.DB\<close>, \<^verbatim>\<open>*sql.Tx\<close> and \<^verbatim>\<open>*gorm.DB\<close>.\<close>

datatype call =
    BeginTx
  | Commit
  | Rollback
  | Exec stmt
  | Query stmt

text \<open>
  The durable contents of the database: the schema-change bodies whose effect persists
  (oldest first), the ledger table \<^verbatim>\<open>schema_migrations\<close> (\<open>None\<close> while the table does
  not exist), the catalogue objects, the roles with their passwords, the tables with
  row-level security enabled, the policies and the table privileges
  (privilege, table, role).
\<close>

record database =
  schema :: "string list"
  schema_migrations :: "MigrationRecord list option"
  objects :: "object list"
  roles :: "(string \<times> string) list"
  rls_enabled :: "string list"
  policies :: "PolicyConfig list"
  grants :: "(string \<times> string \<times> string) list"

text \<open>
  A connection: the contents it sees (inside a transaction, the transaction's working
  copy), every call issued so far with the error it returned, and the lines printed
  on standard output.
\<close>

record conn =
  store :: database
  calls :: "(call \<times> string option) list"
  stdout :: "string list"

text \<open>
  What the program cannot decide is a parameter: \<open>fault\<close> is the failure, if any, the
  driver or the server raises for a call in a given connection state (the state holds
  the whole history, so the same call may fail once and succeed later),
  \<open>cursor_fault\<close> is what goes wrong while the rows of a query are read, and \<open>now\<close> is
  \<^verbatim>\<open>time.Now()\<close>.
\<close>

datatype cursor_fault =
    ScanFails nat string
  | StreamBreaks nat string

record env =
  fault :: "conn \<Rightarrow> call \<Rightarrow> string option"
  cursor_fault :: "conn \<Rightarrow> cursor_fault option"
  now :: "conn \<Rightarrow> nat"

text \<open>
  The outcome of a Go function returning \<^verbatim>\<open>error\<close>: \<^verbatim>\<open>nil\<close>, an error, or a panic
  that propagates to the caller.
\<close>

datatype outcome = Ok | Err string | Panic string

section \<open>The database\<close>

definition logged :: "call \<Rightarrow> string option \<Rightarrow> conn \<Rightarrow> conn" where
  "logged k r c = c\<lparr>calls := calls c @ [(k, r)]\<rparr>"

definition add_object :: "object \<Rightarrow> database \<Rightarrow> database" where
  "add_object ob d = (if ob \<in> set (objects d) then d else d\<lparr>objects := objects d @ [ob]\<rparr>)"

definition add_role :: "string \<Rightarrow> string \<Rightarrow> database \<Rightarrow> database" where
  "add_role name pw d = d\<lparr>roles := roles d @ [(name, pw)]\<rparr>"

definition role_exists :: "database \<Rightarrow> string \<Rightarrow> bool" where
  "role_exists d name = (name \<in> set (map fst (roles d)))"

text \<open>
  The effect of a statement that the server accepts, or the server's error:
  \<^item> \<^verbatim>\<open>CREATE TABLE IF NOT EXISTS schema_migrations\<close> creates the empty ledger once;
  \<^item> a migration body is opaque: its effect is that it has been executed;
  \<^item> \<^verbatim>\<open>INSERT INTO schema_migrations\<close> needs the table and, \<^verbatim>\<open>version\<close> being the
    \<^verbatim>\<open>PRIMARY KEY\<close>, a version that is not there yet;
  \<^item> \<^verbatim>\<open>CREATE POLICY\<close> refuses a second policy of the same name on the same table,
    \<^verbatim>\<open>CREATE ROLE\<close> a second role of the same name;
  \<^item> the \<^verbatim>\<open>IF NOT EXISTS\<close>, \<^verbatim>\<open>CREATE OR REPLACE\<close> and \<^verbatim>\<open>DROP ... IF EXISTS; CREATE\<close>
    statements leave an object that is there as it is.
  Identifiers are taken as the server stores them (no case folding, no quoting).
\<close>

fun effect :: "stmt \<Rightarrow> database \<Rightarrow> string + database" where
  "effect CreateLedgerTable d =
     Inr (case schema_migrations d of None \<Rightarrow> d\<lparr>schema_migrations := Some []\<rparr> | Some rows \<Rightarrow> d)"
| "effect SelectLedger d = Inr d"
| "effect (MigrationSQL body) d = Inr (d\<lparr>schema := schema d @ [body]\<rparr>)"
| "effect (InsertLedger v descr t) d =
     (case schema_migrations d of
        None \<Rightarrow> Inl ''relation schema_migrations does not exist''
      | Some rows \<Rightarrow>
          if v \<in> set (map RecVersion rows)
          then Inl ''duplicate key value violates unique constraint schema_migrations_pkey''
          else Inr (d\<lparr>schema_migrations :=
                 Some (rows @ [\<lparr>RecVersion = v, AppliedAt = t, RecDescription = descr\<rparr>])\<rparr>))"
| "effect (AlterEnableRLS t) d =
     Inr (if t \<in> set (rls_enabled d) then d else d\<lparr>rls_enabled := rls_enabled d @ [t]\<rparr>)"
| "effect (AlterDisableRLS t) d = Inr (d\<lparr>rls_enabled := removeAll t (rls_enabled d)\<rparr>)"
| "effect (CreatePolicyStmt cfg) d =
     (if (Name cfg, Table cfg) \<in> set (map (\<lambda>p. (Name p, Table p)) (policies d))
      then Inl ''policy already exists''
      else Inr (d\<lparr>policies := policies d @ [cfg]\<rparr>))"
| "effect (DropPolicyStmt n t) d =
     Inr (d\<lparr>policies := filter (\<lambda>p. \<not> (Name p = n \<and> Table p = t)) (policies d)\<rparr>)"
| "effect (RoleExists name) d = Inr d"
| "effect (CreateRole name pw) d =
     (if role_exists d name then Inl ''role already exists'' else Inr (add_role name pw d))"
| "effect (Grant perm t r) d = Inr (d\<lparr>grants := grants d @ [(perm, t, r)]\<rparr>)"
| "effect (Revoke perm t r) d = Inr (d\<lparr>grants := removeAll (perm, t, r) (grants d)\<rparr>)"
| "effect (CreateExtension e) d = Inr (add_object (Extension e) d)"
| "effect (GormAutoMigrate ts) d = Inr (fold (\<lambda>t. add_object (TableOf t)) ts d)"
| "effect (AddConstraintIfAbsent t n) d = Inr (add_object (Constraint t n) d)"
| "effect (CreateOrReplaceFunction f) d = Inr (add_object (Function f) d)"
| "effect (RecreateTrigger n t) d = Inr (add_object (Trigger n t) d)"
| "effect (DoCreateRoleIfAbsent name pw) d =
     Inr (if role_exists d name then d else add_role name pw d)"
| "effect (GrantScript gs) d = Inr (d\<lparr>grants := grants d @ gs\<rparr>)"

text \<open>
  \<^verbatim>\<open>ExecContext\<close> (and GORM's \<^verbatim>\<open>Exec\<close>): the call fails with the driver's fault, or with
  the server's error, or takes effect; it is logged with what it returned.
\<close>

definition exec :: "env \<Rightarrow> stmt \<Rightarrow> conn \<Rightarrow> string option \<times> conn" where
  "exec ev st c =
     (case fault ev c (Exec st) of
        Some e \<Rightarrow> (Some e, logged (Exec st) (Some e) c)
      | None \<Rightarrow>
          (case effect st (store c) of
             Inl e \<Rightarrow> (Some e, logged (Exec st) (Some e) c)
           | Inr d \<Rightarrow> (None, logged (Exec st) None (c\<lparr>store := d\<rparr>))))"

section \<open>Connection: WithTransaction\<close>

text \<open>
  \<^verbatim>\<open>func (c *Connection) WithTransaction(ctx, fn func(*sql.Tx) error) error\<close>.
  \<open>fn\<close> works on the transaction's view of the connection and returns, or panics.
  A commit makes the working copy durable; a rollback, and a commit or a rollback that
  fails, leave the contents as they were before \<^verbatim>\<open>BeginTx\<close>. The deferred function
  rolls back on a panic, drops the rollback's error and panics again.
\<close>

definition rollback :: "env \<Rightarrow> conn \<Rightarrow> conn \<Rightarrow> string option \<times> conn" where
  "rollback ev c tx =
     (let r = fault ev tx Rollback in (r, logged Rollback r (tx\<lparr>store := store c\<rparr>)))"

definition commit :: "env \<Rightarrow> conn \<Rightarrow> conn \<Rightarrow> string option \<times> conn" where
  "commit ev c tx =
     (case fault ev tx Commit of
        Some e \<Rightarrow> (Some e, logged Commit (Some e) (tx\<lparr>store := store c\<rparr>))
      | None \<Rightarrow> (None, logged Commit None tx))"

definition WithTransaction :: "env \<Rightarrow> (conn \<Rightarrow> outcome \<times> conn) \<Rightarrow> conn \<Rightarrow> outcome \<times> conn" where
  "WithTransaction ev fn c =
     (case fault ev c BeginTx of
        Some e \<Rightarrow> (Err (''failed to begin transaction: '' @ e), logged BeginTx (Some e) c)
      | None \<Rightarrow>
          (case fn (logged BeginTx None c) of
             (Panic p, tx) \<Rightarrow> (Panic p, snd (rollback ev c tx))
           | (Err e, tx) \<Rightarrow>
               (case rollback ev c tx of
                  (Some rbErr, c') \<Rightarrow>
                    (Err (''transaction error: '' @ e @ '', rollback error: '' @ rbErr), c')
                | (None, c') \<Rightarrow> (Err e, c'))
           | (Ok, tx) \<Rightarrow>
               (case commit ev c tx of
                  (Some e, c') \<Rightarrow> (Err (''failed to commit transaction: '' @ e), c')
                | (None, c') \<Rightarrow> (Ok, c'))))"


section \<open>Migrator\<close>

text \<open>\<^verbatim>\<open>func (m *Migrator) ensureMigrationsTable(ctx) error\<close>\<close>

definition ensureMigrationsTable :: "env \<Rightarrow> conn \<Rightarrow> string option \<times> conn" where
  "ensureMigrationsTable ev c =
     (case exec ev CreateLedgerTable c of
        (Some e, c') \<Rightarrow> (Some (''failed to create migrations table: '' @ e), c')
      | (None, c') \<Rightarrow> (None, c'))"

text \<open>
  The rows of a query as the loop \<^verbatim>\<open>for rows.Next() { rows.Scan(...) }\<close> meets them: a
  row that scans, or a row whose \<^verbatim>\<open>Scan\<close> fails. \<open>deliver\<close> gives the rows that
  \<^verbatim>\<open>rows.Next()\<close> yields before it returns false, and the value of \<^verbatim>\<open>rows.Err()\<close> at
  that point: when the stream breaks after \<open>n\<close> rows, \<^verbatim>\<open>Next\<close> returns false there.
\<close>

datatype row = Row MigrationRecord | BadRow string

fun deliver :: "cursor_fault option \<Rightarrow> MigrationRecord list \<Rightarrow> row list \<times> string option" where
  "deliver None rs = (map Row rs, None)"
| "deliver (Some (StreamBreaks n e)) rs = (map Row (take n rs), Some e)"
| "deliver (Some (ScanFails n e)) rs =
     (if n < length rs then map Row (take n rs) @ BadRow e # map Row (drop (Suc n) rs)
      else map Row rs, None)"

fun scan_loop :: "row list \<Rightarrow> MigrationRecord list \<Rightarrow> string + MigrationRecord list" where
  "scan_loop [] records = Inr records"
| "scan_loop (Row record # rest) records = scan_loop rest (records @ [record])"
| "scan_loop (BadRow e # rest) records = Inl (''failed to scan migration record: '' @ e)"

text \<open>
  \<^verbatim>\<open>func (m *Migrator) GetAppliedMigrations(ctx) ([]MigrationRecord, error)\<close>. The query
  is \<^verbatim>\<open>SELECT version, applied_at, description FROM schema_migrations ORDER BY version\<close>.
  The function returns after the loop without a call of \<^verbatim>\<open>rows.Err()\<close>: the second
  component of \<open>deliver\<close> is not read.
\<close>

definition GetAppliedMigrations :: "env \<Rightarrow> conn \<Rightarrow> (string + MigrationRecord list) \<times> conn" where
  "GetAppliedMigrations ev c =
     (case fault ev c (Query SelectLedger) of
        Some e \<Rightarrow>
          (Inl (''failed to query migrations: '' @ e), logged (Query SelectLedger) (Some e) c)
      | None \<Rightarrow>
          (case schema_migrations (store c) of
             None \<Rightarrow>
               (Inl (''failed to query migrations: '' @ ''relation schema_migrations does not exist''),
                logged (Query SelectLedger) (Some ''relation schema_migrations does not exist'') c)
           | Some rows \<Rightarrow>
               (scan_loop (fst (deliver (cursor_fault ev c) (sort_key RecVersion rows))) [],
                logged (Query SelectLedger) None c)))"

text \<open>
  \<^verbatim>\<open>appliedMap := make(map[string]bool); for _, record := range applied { appliedMap[record.Version] = true }\<close>;
  a missing key reads as \<^verbatim>\<open>false\<close>.
\<close>

definition appliedMap :: "MigrationRecord list \<Rightarrow> string \<Rightarrow> bool" where
  "appliedMap applied = fold (\<lambda>record m. m(RecVersion record := True)) applied (\<lambda>v. False)"

text \<open>\<^verbatim>\<open>func (m *Migrator) applyMigration(ctx, migration Migration) error\<close>\<close>

definition applyMigration :: "env \<Rightarrow> Migration \<Rightarrow> conn \<Rightarrow> outcome \<times> conn" where
  "applyMigration ev migration c =
     WithTransaction ev
       (\<lambda>tx. case exec ev (MigrationSQL (SQL migration)) tx of
               (Some e, tx1) \<Rightarrow> (Err (''failed to execute migration SQL: '' @ e), tx1)
             | (None, tx1) \<Rightarrow>
                 (case exec ev (InsertLedger (Version migration) (Description migration) (now ev tx1)) tx1 of
                    (Some e, tx2) \<Rightarrow> (Err (''failed to record migration: '' @ e), tx2)
                  | (None, tx2) \<Rightarrow> (Ok, tx2)))
       c"

text \<open>The line \<^verbatim>\<open>fmt.Printf("Applied migration: %s - %s\n", ...)\<close>.\<close>

definition applied_line :: "Migration \<Rightarrow> string" where
  "applied_line migration =
     ''Applied migration: '' @ Version migration @ '' - '' @ Description migration"

text \<open>The loop \<^verbatim>\<open>for _, migration := range migrations\<close> of \<^verbatim>\<open>Apply\<close>.\<close>

fun apply_pending :: "env \<Rightarrow> (string \<Rightarrow> bool) \<Rightarrow> Migration list \<Rightarrow> conn \<Rightarrow> outcome \<times> conn" where
  "apply_pending ev am [] c = (Ok, c)"
| "apply_pending ev am (migration # rest) c =
     (if am (Version migration) then apply_pending ev am rest c
      else
        (case applyMigration ev migration c of
           (Ok, c') \<Rightarrow>
             apply_pending ev am rest (c'\<lparr>stdout := stdout c' @ [applied_line migration]\<rparr>)
         | (Err e, c') \<Rightarrow>
             (Err (''failed to apply migration '' @ Version migration @ '': '' @ e), c')
         | (Panic p, c') \<Rightarrow> (Panic p, c')))"

text \<open>
  \<^verbatim>\<open>func (m *Migrator) Apply(ctx, migrations []Migration) error\<close>.
  \<^verbatim>\<open>sort.Slice(migrations, func(i, j) bool { return migrations[i].Version < migrations[j].Version })\<close>
  is the library's sort by that order; \<open>sort_key\<close> is the sort that keeps equal versions
  in their input order (the library leaves their order open).
\<close>

definition Apply :: "env \<Rightarrow> Migration list \<Rightarrow> conn \<Rightarrow> outcome \<times> conn" where
  "Apply ev migrations c =
     (case ensureMigrationsTable ev c of
        (Some e, c1) \<Rightarrow> (Err e, c1)
      | (None, c1) \<Rightarrow>
          (case GetAppliedMigrations ev c1 of
             (Inl e, c2) \<Rightarrow> (Err e, c2)
           | (Inr applied, c2) \<Rightarrow>
               apply_pending ev (appliedMap applied) (sort_key Version migrations) c2))"

section \<open>RLSManager\<close>

text \<open>\<^verbatim>\<open>EnableRLS\<close>: \<^verbatim>\<open>ALTER TABLE %s ENABLE ROW LEVEL SECURITY\<close>\<close>

definition EnableRLS :: "env \<Rightarrow> string \<Rightarrow> conn \<Rightarrow> string option \<times> conn" where
  "EnableRLS ev tableName c =
     (case exec ev (AlterEnableRLS tableName) c of
        (Some e, c') \<Rightarrow> (Some (''failed to enable RLS on '' @ tableName @ '': '' @ e), c')
      | (None, c') \<Rightarrow> (None, c'))"

text \<open>
  \<^verbatim>\<open>CreatePolicy\<close>: \<^verbatim>\<open>CREATE POLICY %s ON %s FOR %s TO %s USING (%s)\<close>, followed by
  \<^verbatim>\<open>WITH CHECK (%s)\<close> when \<^verbatim>\<open>cfg.WithCheck\<close> is not empty.
\<close>

definition CreatePolicy :: "env \<Rightarrow> PolicyConfig \<Rightarrow> conn \<Rightarrow> string option \<times> conn" where
  "CreatePolicy ev cfg c =
     (case exec ev (CreatePolicyStmt cfg) c of
        (Some e, c') \<Rightarrow> (Some (''failed to create policy '' @ Name cfg @ '': '' @ e), c')
      | (None, c') \<Rightarrow> (None, c'))"




text \<open>\<^verbatim>\<open>func SetupServiceRLS(ctx, db, serviceName, tableName string, fullAccess bool) error\<close>\<close>

definition service_policy :: "string \<Rightarrow> string \<Rightarrow> bool \<Rightarrow> PolicyConfig" where
  "service_policy serviceName tableName fullAccess =
     (if fullAccess
      then \<lparr>Name = serviceName @ ''_all_'' @ tableName, Table = tableName, Command = ''ALL'',
            Role = serviceName, Using = ''true'', WithCheck = []\<rparr>
      else \<lparr>Name = serviceName @ ''_select_'' @ tableName, Table = tableName, Command = ''SELECT'',
            Role = serviceName, Using = ''true'', WithCheck = []\<rparr>)"

definition SetupServiceRLS :: "env \<Rightarrow> string \<Rightarrow> string \<Rightarrow> bool \<Rightarrow> conn \<Rightarrow> string option \<times> conn" where
  "SetupServiceRLS ev serviceName tableName fullAccess c =
     (case EnableRLS ev tableName c of
        (Some e, c') \<Rightarrow> (Some e, c')
      | (None, c') \<Rightarrow> CreatePolicy ev (service_policy serviceName tableName fullAccess) c')"

section \<open>Orchestrator: AutoMigrate and CreateServiceRoles\<close>

text \<open>
  The loop over \<^verbatim>\<open>[]string{"users", "files", "folders"}\<close> of \<^verbatim>\<open>addCustomConstraints\<close>:
  \<^verbatim>\<open>DROP TRIGGER IF EXISTS update_%s_updated_at ON %s; CREATE TRIGGER ...\<close>
\<close>

fun create_triggers :: "env \<Rightarrow> string list \<Rightarrow> conn \<Rightarrow> string option \<times> conn" where
  "create_triggers ev [] c = (None, c)"
| "create_triggers ev (t # tables) c =
     (case exec ev (RecreateTrigger (''update_'' @ t @ ''_updated_at'') t) c of
        (Some e, c') \<Rightarrow> (Some (''failed to create trigger for '' @ t @ '': '' @ e), c')
      | (None, c') \<Rightarrow> create_triggers ev tables c')"

text \<open>
  \<^verbatim>\<open>func addCustomConstraints(db *gorm.DB) error\<close>: two \<^verbatim>\<open>CHECK\<close> constraints, each added
  inside \<^verbatim>\<open>IF NOT EXISTS (SELECT 1 FROM pg_constraint WHERE conname = ...)\<close>, the function
  \<^verbatim>\<open>update_updated_at_column\<close> with \<^verbatim>\<open>CREATE OR REPLACE\<close>, and the triggers.
\<close>

definition addCustomConstraints :: "env \<Rightarrow> conn \<Rightarrow> string option \<times> conn" where
  "addCustomConstraints ev c =
     (case exec ev (AddConstraintIfAbsent ''users'' ''users_email_format_check'') c of
        (Some e, c1) \<Rightarrow> (Some (''failed to add email format constraint: '' @ e), c1)
      | (None, c1) \<Rightarrow>
     (case exec ev (AddConstraintIfAbsent ''folders'' ''folders_no_self_parent_check'') c1 of
        (Some e, c2) \<Rightarrow> (Some (''failed to add no self-parent constraint: '' @ e), c2)
      | (None, c2) \<Rightarrow>
     (case exec ev (CreateOrReplaceFunction ''update_updated_at_column'') c2 of
        (Some e, c3) \<Rightarrow> (Some (''failed to create update_updated_at_column function: '' @ e), c3)
      | (None, c3) \<Rightarrow> create_triggers ev [''users'', ''files'', ''folders''] c3)))"

text \<open>
  \<^verbatim>\<open>func AutoMigrate(db *gorm.DB) error\<close>, which the action \<^verbatim>\<open>migrate\<close> of
  \<^verbatim>\<open>cmd/migrate/main.go\<close> calls and nothing else. \<^verbatim>\<open>db.AutoMigrate(&domain.User{},
  &domain.Folder{}, &domain.File{})\<close> is GORM's migration of the three models, whose
  tables are \<^verbatim>\<open>users\<close>, \<^verbatim>\<open>folders\<close> and \<^verbatim>\<open>files\<close>. The lines written with \<^verbatim>\<open>log.Println\<close>
  are left out.
\<close>

definition AutoMigrate :: "env \<Rightarrow> conn \<Rightarrow> string option \<times> conn" where
  "AutoMigrate ev c =
     (case exec ev (CreateExtension ''uuid-ossp'') c of
        (Some e, c1) \<Rightarrow> (Some (''failed to create uuid-ossp extension: '' @ e), c1)
      | (None, c1) \<Rightarrow>
     (case exec ev (CreateExtension ''pgcrypto'') c1 of
        (Some e, c2) \<Rightarrow> (Some (''failed to create pgcrypto extension: '' @ e), c2)
      | (None, c2) \<Rightarrow>
     (case exec ev (GormAutoMigrate [''users'', ''folders'', ''files'']) c2 of
        (Some e, c3) \<Rightarrow> (Some (''failed to auto-migrate models: '' @ e), c3)
      | (None, c3) \<Rightarrow>
     (case addCustomConstraints ev c3 of
        (Some e, c4) \<Rightarrow> (Some (''failed to add custom constraints: '' @ e), c4)
      | (None, c4) \<Rightarrow> (None, c4)))))"






section \<open>Observations and concrete environments\<close>

text \<open>The versions in the ledger, the migration bodies a log shows as sent.\<close>

definition ledger_versions :: "database \<Rightarrow> string list" where
  "ledger_versions d = (case schema_migrations d of None \<Rightarrow> [] | Some rows \<Rightarrow> map RecVersion rows)"

fun attempted :: "(call \<times> string option) list \<Rightarrow> string list" where
  "attempted [] = []"
| "attempted ((Exec (MigrationSQL body), r) # l) = body # attempted l"
| "attempted (x # l) = attempted l"

text \<open>An empty database, and a connection to it with nothing issued yet.\<close>

definition empty_db :: database where
  "empty_db = \<lparr>schema = [], schema_migrations = None, objects = [], roles = [],
               rls_enabled = [], policies = [], grants = []\<rparr>"

definition fresh :: conn where
  "fresh = \<lparr>store = empty_db, calls = [], stdout = []\<rparr>"

text \<open>
  An environment without faults, and one in which exactly the given calls fail, always
  with the same message.
\<close>

definition healthy :: env where
  "healthy = \<lparr>fault = (\<lambda>c k. None), cursor_fault = (\<lambda>c. None), now = (\<lambda>c. length (calls c))\<rparr>"

definition failing :: "call list \<Rightarrow> env" where
  "failing ks = healthy\<lparr>fault := (\<lambda>c k. if k \<in> set ks then Some ''refused'' else None)\<rparr>"

text \<open>
  Three migrations declared in the order 001, 003, 002, and an environment in which the
  body of 002 is refused.
\<close>

definition m001 :: Migration where
  "m001 = \<lparr>Version = ''001'', Description = ''users'', SQL = ''CREATE TABLE users ()''\<rparr>"

definition m002 :: Migration where
  "m002 = \<lparr>Version = ''002'', Description = ''phone'', SQL = ''ALTER TABLE users ADD phone''\<rparr>"

definition m003 :: Migration where
  "m003 = \<lparr>Version = ''003'', Description = ''index'', SQL = ''CREATE INDEX i ON users (phone)''\<rparr>"

definition declared :: "Migration list" where
  "declared = [m001, m003, m002]"

definition refuses_002 :: env where
  "refuses_002 = failing [Exec (MigrationSQL (SQL m002))]"

text \<open>
  The same declaration with the body of 002 corrected, and an environment in which the
  stream of rows breaks before the first row.
\<close>

definition corrected :: "Migration list" where
  "corrected = [m001, m003, m002\<lparr>SQL := ''ALTER TABLE users ADD COLUMN phone text''\<rparr>]"

definition stream_breaks :: env where
  "stream_breaks = healthy\<lparr>cursor_fault := (\<lambda>c. Some (StreamBreaks 0 ''connection reset''))\<rparr>"


definition refuses_rls :: env where
  "refuses_rls = failing [Exec (AlterEnableRLS ''users'')]"

text \<open>
  The statements of the action \<^verbatim>\<open>migrate\<close> in the order in which \<^verbatim>\<open>AutoMigrate\<close> and
  \<^verbatim>\<open>addCustomConstraints\<close> issue them, and the objects they leave in the catalogue.
\<close>

definition migrate_statements :: "stmt list" where
  "migrate_statements =
     [CreateExtension ''uuid-ossp'', CreateExtension ''pgcrypto'',
      GormAutoMigrate [''users'', ''folders'', ''files''],
      AddConstraintIfAbsent ''users'' ''users_email_format_check'',
      AddConstraintIfAbsent ''folders'' ''folders_no_self_parent_check'',
      CreateOrReplaceFunction ''update_updated_at_column'',
      RecreateTrigger ''update_users_updated_at'' ''users'',
      RecreateTrigger ''update_files_updated_at'' ''files'',
      RecreateTrigger ''update_folders_updated_at'' ''folders'']"

definition migrate_objects :: "object list" where
  "migrate_objects =
     [Extension ''uuid-ossp'', Extension ''pgcrypto'',
      TableOf ''users'', TableOf ''folders'', TableOf ''files'',
      Constraint ''users'' ''users_email_format_check'',
      Constraint ''folders'' ''folders_no_self_parent_check'',
      Function ''update_updated_at_column'',
      Trigger ''update_users_updated_at'' ''users'',
      Trigger ''update_files_updated_at'' ''files'',
      Trigger ''update_folders_updated_at'' ''folders'']"

text \<open>
  Running a list of statements in order up to the first that fails: the reading of
  "performs exactly this sequence" against which \<^verbatim>\<open>AutoMigrate\<close> is compared. The result
  is the statement that failed, with its error.
\<close>

fun run_in_order :: "env \<Rightarrow> stmt list \<Rightarrow> conn \<Rightarrow> (stmt \<times> string) option \<times> conn" where
  "run_in_order ev [] c = (None, c)"
| "run_in_order ev (s # ss) c =
     (case exec ev s c of
        (Some e, c') \<Rightarrow> (Some (s, e), c')
      | (None, c') \<Rightarrow> run_in_order ev ss c')"

definition refuses_automigrate :: env where
  "refuses_automigrate = failing [Exec (GormAutoMigrate [''users'', ''folders'', ''files''])]"

text \<open>All definitions of the examples, for evaluation.\<close>

lemmas run_defs =
  Apply_def ensureMigrationsTable_def GetAppliedMigrations_def exec_def logged_def appliedMap_def
  applyMigration_def WithTransaction_def commit_def rollback_def applied_line_def Let_def

lemmas example_defs =
  healthy_def failing_def fresh_def empty_db_def declared_def m001_def m002_def m003_def
  refuses_002_def corrected_def stream_breaks_def ledger_versions_def

section \<open>Lemmas on the log and on single statements\<close>


lemma attempted_append: "attempted (l1 @ l2) = attempted l1 @ attempted l2"
  by (induction l1 rule: attempted.induct) auto

lemma exec_fault:
  "fault ev c (Exec st) = Some e \<Longrightarrow> exec ev st c = (Some e, logged (Exec st) (Some e) c)"
  by (simp add: exec_def)

lemma exec_body:
  "fault ev c (Exec (MigrationSQL b)) = None \<Longrightarrow>
   exec ev (MigrationSQL b) c =
     (None, logged (Exec (MigrationSQL b)) None (c\<lparr>store := (store c)\<lparr>schema := schema (store c) @ [b]\<rparr>\<rparr>))"
  by (simp add: exec_def)

lemma exec_insert:
  "fault ev c (Exec (InsertLedger v d t)) = None \<Longrightarrow>
   exec ev (InsertLedger v d t) c =
     (case schema_migrations (store c) of
        None \<Rightarrow> (Some ''relation schema_migrations does not exist'',
                  logged (Exec (InsertLedger v d t)) (Some ''relation schema_migrations does not exist'') c)
      | Some rows \<Rightarrow>
          if v \<in> set (map RecVersion rows)
          then (Some ''duplicate key value violates unique constraint schema_migrations_pkey'',
                logged (Exec (InsertLedger v d t))
                  (Some ''duplicate key value violates unique constraint schema_migrations_pkey'') c)
          else (None, logged (Exec (InsertLedger v d t)) None
                  (c\<lparr>store := (store c)\<lparr>schema_migrations :=
                     Some (rows @ [\<lparr>RecVersion = v, AppliedAt = t, RecDescription = d\<rparr>])\<rparr>\<rparr>)))"
  by (simp add: exec_def split: option.splits)

lemma applyMigration_cases:
  "\<exists>r c'. applyMigration ev m c = (r, c') \<and> stdout c' = stdout c \<and>
     ((\<exists>rows t. r = Ok
         \<and> calls c' = calls c @ [(BeginTx, None), (Exec (MigrationSQL (SQL m)), None),
               (Exec (InsertLedger (Version m) (Description m) t), None), (Commit, None)]
         \<and> schema_migrations (store c) = Some rows
         \<and> Version m \<notin> set (map RecVersion rows)
         \<and> store c' = (store c)\<lparr>schema := schema (store c) @ [SQL m],
              schema_migrations := Some (rows @
                [\<lparr>RecVersion = Version m, AppliedAt = t, RecDescription = Description m\<rparr>])\<rparr>)
    \<or> (\<exists>e. r = Err (''failed to begin transaction: '' @ e)
         \<and> calls c' = calls c @ [(BeginTx, Some e)] \<and> store c' = store c)
    \<or> (\<exists>e e' rb. r = Err e'
         \<and> calls c' = calls c @ [(BeginTx, None), (Exec (MigrationSQL (SQL m)), Some e), (Rollback, rb)]
         \<and> store c' = store c)
    \<or> (\<exists>e e' t rb. r = Err e'
         \<and> calls c' = calls c @ [(BeginTx, None), (Exec (MigrationSQL (SQL m)), None),
               (Exec (InsertLedger (Version m) (Description m) t), Some e), (Rollback, rb)]
         \<and> store c' = store c)
    \<or> (\<exists>e t. r = Err (''failed to commit transaction: '' @ e)
         \<and> calls c' = calls c @ [(BeginTx, None), (Exec (MigrationSQL (SQL m)), None),
               (Exec (InsertLedger (Version m) (Description m) t), None), (Commit, Some e)]
         \<and> store c' = store c))"
proof (cases "fault ev c BeginTx")
  case (Some e)
  then show ?thesis
    by (simp add: applyMigration_def WithTransaction_def logged_def)
next
  case bg: None
  define tx0 where "tx0 = logged BeginTx None c"
  show ?thesis
  proof (cases "fault ev tx0 (Exec (MigrationSQL (SQL m)))")
    case (Some e)
    then show ?thesis
      using bg
      by (cases "fault ev (logged (Exec (MigrationSQL (SQL m))) (Some e) tx0) Rollback")
         (simp_all add: applyMigration_def WithTransaction_def exec_fault rollback_def Let_def
            tx0_def [symmetric], simp_all add: logged_def tx0_def)
  next
    case body: None
    define tx1 where
      "tx1 = logged (Exec (MigrationSQL (SQL m))) None
               (tx0\<lparr>store := (store tx0)\<lparr>schema := schema (store tx0) @ [SQL m]\<rparr>\<rparr>)"
    define st where "st = InsertLedger (Version m) (Description m) (now ev tx1)"
    have fn1: "exec ev (MigrationSQL (SQL m)) tx0 = (None, tx1)"
      using body by (simp add: exec_body tx1_def)
    have am: "applyMigration ev m c =
        (case exec ev st tx1 of
           (Some e, tx2) \<Rightarrow>
              (case rollback ev c tx2 of
                 (Some rbErr, c') \<Rightarrow>
                    (Err (''transaction error: '' @ (''failed to record migration: '' @ e)
                            @ '', rollback error: '' @ rbErr), c')
               | (None, c') \<Rightarrow> (Err (''failed to record migration: '' @ e), c'))
         | (None, tx2) \<Rightarrow>
              (case commit ev c tx2 of
                 (Some e, c') \<Rightarrow> (Err (''failed to commit transaction: '' @ e), c')
               | (None, c') \<Rightarrow> (Ok, c')))"
      using bg fn1
      by (simp add: applyMigration_def WithTransaction_def tx0_def [symmetric] st_def
               split: prod.splits option.splits)
    have tx1_facts: "calls tx1 = calls c @ [(BeginTx, None), (Exec (MigrationSQL (SQL m)), None)]"
      "stdout tx1 = stdout c" "schema_migrations (store tx1) = schema_migrations (store c)"
      "store tx1 = (store c)\<lparr>schema := schema (store c) @ [SQL m]\<rparr>"
      by (simp_all add: tx1_def tx0_def logged_def)
    show ?thesis
    proof (cases "exec ev st tx1")
      case (Pair r2 tx2)
      show ?thesis
      proof (cases r2)
        case (Some e)
        then have "calls tx2 = calls tx1 @ [(Exec st, Some e)]" "stdout tx2 = stdout tx1"
          using Pair
          by (auto simp: exec_def logged_def split: option.splits sum.splits)
        then show ?thesis
          using am Pair Some tx1_facts
          by (cases "fault ev tx2 Rollback")
             (simp_all add: rollback_def Let_def logged_def st_def)
      next
        case None
        then obtain rows where rows: "schema_migrations (store tx1) = Some rows"
            "Version m \<notin> set (map RecVersion rows)"
            "tx2 = logged (Exec st) None (tx1\<lparr>store := (store tx1)\<lparr>schema_migrations :=
                     Some (rows @ [\<lparr>RecVersion = Version m, AppliedAt = now ev tx1,
                                     RecDescription = Description m\<rparr>])\<rparr>\<rparr>)"
          using Pair
          by (auto simp: exec_def st_def split: option.splits sum.splits if_splits)
        then show ?thesis
          using am Pair None tx1_facts
          by (cases "fault ev tx2 Commit")
             (simp_all add: commit_def logged_def st_def)
      qed
    qed
  qed
qed


lemma applyMigration_step:
  "\<exists>r c' a. applyMigration ev m c = (r, c') \<and> stdout c' = stdout c \<and> (\<forall>p. r \<noteq> Panic p)
     \<and> attempted (calls c') = attempted (calls c) @ a \<and> (a = [] \<or> a = [SQL m])
     \<and> (r = Ok \<longrightarrow> a = [SQL m] \<and> Version m \<notin> set (ledger_versions (store c))
            \<and> schema (store c') = schema (store c) @ [SQL m]
            \<and> ledger_versions (store c') = ledger_versions (store c) @ [Version m])
     \<and> (r \<noteq> Ok \<longrightarrow> store c' = store c)
     \<and> (schema_migrations (store c) \<noteq> None \<longrightarrow> schema_migrations (store c') \<noteq> None)"
  using applyMigration_cases [of ev m c]
  by (elim exE conjE disjE) (simp_all add: attempted_append ledger_versions_def)

lemma apply_pending_run:
  "\<exists>r c' done rest a. apply_pending ev am ms c = (r, c')
     \<and> filter (\<lambda>m. \<not> am (Version m)) ms = done @ rest
     \<and> schema (store c') = schema (store c) @ map SQL done
     \<and> ledger_versions (store c') = ledger_versions (store c) @ map Version done
     \<and> stdout c' = stdout c @ map applied_line done
     \<and> attempted (calls c') = attempted (calls c) @ map SQL done @ a
     \<and> distinct (map Version done)
     \<and> set (map Version done) \<inter> set (ledger_versions (store c)) = {}
     \<and> (done = [] \<longrightarrow> store c' = store c)
     \<and> (schema_migrations (store c) \<noteq> None \<longrightarrow> schema_migrations (store c') \<noteq> None)
     \<and> (r = Ok \<and> rest = [] \<and> a = []
         \<or> (\<exists>e0 m rest'. r = Err (''failed to apply migration '' @ Version m @ '': '' @ e0)
               \<and> rest = m # rest' \<and> (a = [] \<or> a = [SQL m])))"
proof (induction ms arbitrary: c)
  case Nil
  show ?case by simp
next
  case (Cons m ms)
  show ?case
  proof (cases "am (Version m)")
    case True
    with Cons.IH [of c] show ?thesis by simp
  next
    case False
    from applyMigration_step [of ev m c] obtain r1 c1 a1 where
      s: "applyMigration ev m c = (r1, c1)" "stdout c1 = stdout c" "\<forall>p. r1 \<noteq> Panic p"
         "attempted (calls c1) = attempted (calls c) @ a1" "a1 = [] \<or> a1 = [SQL m]"
         "r1 = Ok \<longrightarrow> a1 = [SQL m] \<and> Version m \<notin> set (ledger_versions (store c))
            \<and> schema (store c1) = schema (store c) @ [SQL m]
            \<and> ledger_versions (store c1) = ledger_versions (store c) @ [Version m]"
         "r1 \<noteq> Ok \<longrightarrow> store c1 = store c"
         "schema_migrations (store c) \<noteq> None \<longrightarrow> schema_migrations (store c1) \<noteq> None"
      by blast
    show ?thesis
    proof (cases r1)
      case Ok
      define c2 where "c2 = c1\<lparr>stdout := stdout c1 @ [applied_line m]\<rparr>"
      from Cons.IH [of c2] obtain r c' dn rest a where
        ih: "apply_pending ev am ms c2 = (r, c')"
            "filter (\<lambda>m. \<not> am (Version m)) ms = dn @ rest"
            "schema (store c') = schema (store c2) @ map SQL dn"
            "ledger_versions (store c') = ledger_versions (store c2) @ map Version dn"
            "stdout c' = stdout c2 @ map applied_line dn"
            "attempted (calls c') = attempted (calls c2) @ map SQL dn @ a"
            "distinct (map Version dn)"
            "set (map Version dn) \<inter> set (ledger_versions (store c2)) = {}"
            "schema_migrations (store c2) \<noteq> None \<longrightarrow> schema_migrations (store c') \<noteq> None"
            "r = Ok \<and> rest = [] \<and> a = []
              \<or> (\<exists>e0 m rest'. r = Err (''failed to apply migration '' @ Version m @ '': '' @ e0)
                    \<and> rest = m # rest' \<and> (a = [] \<or> a = [SQL m]))"
        by blast
      have c2: "store c2 = store c1" "calls c2 = calls c1" "stdout c2 = stdout c @ [applied_line m]"
        using s(2) by (simp_all add: c2_def)
      have run: "apply_pending ev am (m # ms) c = (r, c')"
        using False s(1) Ok ih(1) by (simp add: c2_def)
      have f: "filter (\<lambda>m. \<not> am (Version m)) (m # ms) = (m # dn) @ rest"
        using False ih(2) by simp
      have "schema (store c') = schema (store c) @ map SQL (m # dn)"
           "ledger_versions (store c') = ledger_versions (store c) @ map Version (m # dn)"
           "stdout c' = stdout c @ map applied_line (m # dn)"
           "attempted (calls c') = attempted (calls c) @ map SQL (m # dn) @ a"
           "distinct (map Version (m # dn))"
           "set (map Version (m # dn)) \<inter> set (ledger_versions (store c)) = {}"
           "m # dn = [] \<longrightarrow> store c' = store c"
           "schema_migrations (store c) \<noteq> None \<longrightarrow> schema_migrations (store c') \<noteq> None"
        using ih(3-9) s(4,6,8) Ok c2 by auto
      with run f ih(10) show ?thesis by blast
    next
      case (Err e)
      have run: "apply_pending ev am (m # ms) c =
                   (Err (''failed to apply migration '' @ Version m @ '': '' @ e), c1)"
        using False s(1) Err by simp
      have f: "filter (\<lambda>m. \<not> am (Version m)) (m # ms) = [] @ m # filter (\<lambda>m. \<not> am (Version m)) ms"
        using False by simp
      have "schema (store c1) = schema (store c) @ map SQL []"
           "ledger_versions (store c1) = ledger_versions (store c) @ map Version []"
           "stdout c1 = stdout c @ map applied_line []"
           "attempted (calls c1) = attempted (calls c) @ map SQL [] @ a1"
           "distinct (map Version ([]::Migration list))"
           "set (map Version ([]::Migration list)) \<inter> set (ledger_versions (store c)) = {}"
           "([]::Migration list) = [] \<longrightarrow> store c1 = store c"
           "schema_migrations (store c) \<noteq> None \<longrightarrow> schema_migrations (store c1) \<noteq> None"
        using s(2,4,7,8) Err by simp_all
      with run f s(5) show ?thesis by blast
    next
      case (Panic p)
      with s(3) show ?thesis by simp
    qed
  qed
qed

section \<open>Transactions\<close>



text \<open>
  C1. \<^verbatim>\<open>applyMigration\<close> sends the body and the ledger row between one \<^verbatim>\<open>BeginTx\<close> and
  the \<^verbatim>\<open>Commit\<close> or \<^verbatim>\<open>Rollback\<close> that ends it. It returns \<^verbatim>\<open>nil\<close> only when both
  statements and the commit succeeded, and then the body and the ledger row of the
  version are both durable. In every other case (the transaction does not begin, the
  body fails, the insert fails, the commit fails) a failing statement is followed by
  \<^verbatim>\<open>Rollback\<close> and the database is what it was: neither the schema change nor a ledger
  row for the version has been added.
\<close>

theorem applyMigration_atomic:
  "\<exists>r c' steps. applyMigration ev m c = (r, c') \<and> calls c' = calls c @ steps \<and>
     ((\<exists>rows t. r = Ok
         \<and> steps = [(BeginTx, None), (Exec (MigrationSQL (SQL m)), None),
               (Exec (InsertLedger (Version m) (Description m) t), None), (Commit, None)]
         \<and> schema_migrations (store c) = Some rows
         \<and> Version m \<notin> set (map RecVersion rows)
         \<and> store c' = (store c)\<lparr>schema := schema (store c) @ [SQL m],
              schema_migrations := Some (rows @
                [\<lparr>RecVersion = Version m, AppliedAt = t, RecDescription = Description m\<rparr>])\<rparr>)
      \<or> (r \<noteq> Ok \<and> store c' = store c
          \<and> ledger_versions (store c') = ledger_versions (store c)
          \<and> schema (store c') = schema (store c)
          \<and> ((\<exists>e. steps = [(BeginTx, Some e)])
            \<or> (\<exists>e rb. steps = [(BeginTx, None), (Exec (MigrationSQL (SQL m)), Some e), (Rollback, rb)])
            \<or> (\<exists>e t rb. steps = [(BeginTx, None), (Exec (MigrationSQL (SQL m)), None),
                  (Exec (InsertLedger (Version m) (Description m) t), Some e), (Rollback, rb)])
            \<or> (\<exists>e t. steps = [(BeginTx, None), (Exec (MigrationSQL (SQL m)), None),
                  (Exec (InsertLedger (Version m) (Description m) t), None), (Commit, Some e)]))))"
  using applyMigration_cases [of ev m c]
  by (elim exE conjE disjE) simp_all

theorem applyMigration_atomic_witness:
  "applyMigration refuses_002 m002 (snd (ensureMigrationsTable healthy fresh)) =
     (Err ''failed to execute migration SQL: refused'',
      \<lparr>store = empty_db\<lparr>schema_migrations := Some []\<rparr>,
        calls = [(Exec CreateLedgerTable, None), (BeginTx, None),
                 (Exec (MigrationSQL (SQL m002)), Some ''refused''), (Rollback, None)],
        stdout = []\<rparr>)
   \<and> applyMigration healthy m002 (snd (ensureMigrationsTable healthy fresh)) =
     (Ok,
      \<lparr>store = empty_db\<lparr>schema := [SQL m002], schema_migrations :=
          Some [\<lparr>RecVersion = ''002'', AppliedAt = 3, RecDescription = ''phone''\<rparr>]\<rparr>,
        calls = [(Exec CreateLedgerTable, None), (BeginTx, None),
                 (Exec (MigrationSQL (SQL m002)), None),
                 (Exec (InsertLedger ''002'' ''phone'' 3), None), (Commit, None)],
        stdout = []\<rparr>)"
  using applyMigration_atomic [of refuses_002 m002 "snd (ensureMigrationsTable healthy fresh)"]
        applyMigration_atomic [of healthy m002 "snd (ensureMigrationsTable healthy fresh)"]
  by (simp add: run_defs example_defs)

section \<open>Lemmas on a run of the Migrator\<close>

lemma map_insort_key: "map f (insort_key f x ys) = insort (f x) (map f ys)"
  by (induction ys) simp_all

lemma map_sort_key: "map f (sort_key f xs) = sort (map f xs)"
  by (induction xs) (simp_all add: map_insort_key)

lemma appliedMap_fold:
  "fold (\<lambda>record m. m(RecVersion record := True)) applied g v \<longleftrightarrow> g v \<or> v \<in> RecVersion ` set applied"
  by (induction applied arbitrary: g) auto

lemma appliedMap_iff: "appliedMap applied v \<longleftrightarrow> v \<in> RecVersion ` set applied"
  by (simp add: appliedMap_def appliedMap_fold)

lemma scan_loop_rows: "scan_loop (map Row rs) acc = Inr (acc @ rs)"
  by (induction rs arbitrary: acc) simp_all

lemma scan_loop_bad:
  "scan_loop (map Row rs @ BadRow e # rest) acc = Inl (''failed to scan migration record: '' @ e)"
  by (induction rs arbitrary: acc) simp_all

lemma ensure_ok:
  assumes "ensureMigrationsTable ev c = (None, c1)"
  shows "calls c1 = calls c @ [(Exec CreateLedgerTable, None)]" "stdout c1 = stdout c"
    "schema (store c1) = schema (store c)"
    "ledger_versions (store c1) = ledger_versions (store c)"
    "schema_migrations (store c1) \<noteq> None"
    "schema_migrations (store c) \<noteq> None \<Longrightarrow> c1 = logged (Exec CreateLedgerTable) None c"
  using assms
  by (auto simp: ensureMigrationsTable_def exec_def logged_def ledger_versions_def
           split: option.splits)

lemma ensure_store:
  "schema_migrations (store c) \<noteq> None \<Longrightarrow> store (snd (ensureMigrationsTable ev c)) = store c"
  by (auto simp: ensureMigrationsTable_def exec_def logged_def split: option.splits)

lemma read_store: "store (snd (GetAppliedMigrations ev c)) = store c"
  by (simp add: GetAppliedMigrations_def logged_def split: option.splits)

lemma read_ok:
  assumes "GetAppliedMigrations ev c = (Inr applied, c')"
  shows "c' = logged (Query SelectLedger) None c"
    "\<exists>rows. schema_migrations (store c) = Some rows \<and>
       applied = (case cursor_fault ev c of
                    Some (StreamBreaks n e) \<Rightarrow> take n (sort_key RecVersion rows)
                  | _ \<Rightarrow> sort_key RecVersion rows)"
  using assms
  by (auto simp: GetAppliedMigrations_def scan_loop_rows scan_loop_bad
           split: option.splits cursor_fault.splits if_splits)

lemma read_subset:
  assumes "GetAppliedMigrations ev c = (Inr applied, c')"
  shows "RecVersion ` set applied \<subseteq> set (ledger_versions (store c))"
    "cursor_fault ev c = None \<Longrightarrow> RecVersion ` set applied = set (ledger_versions (store c))"
proof -
  from read_ok(2) [OF assms] obtain rows where
    r: "schema_migrations (store c) = Some rows"
       "applied = (case cursor_fault ev c of
                    Some (StreamBreaks n e) \<Rightarrow> take n (sort_key RecVersion rows)
                  | _ \<Rightarrow> sort_key RecVersion rows)"
    by blast
  have "set applied \<subseteq> set rows"
    using r(2) set_take_subset [of _ "sort_key RecVersion rows"]
    by (auto split: option.splits cursor_fault.splits)
  then show "RecVersion ` set applied \<subseteq> set (ledger_versions (store c))"
    using r(1) by (auto simp: ledger_versions_def)
  show "RecVersion ` set applied = set (ledger_versions (store c))" if "cursor_fault ev c = None"
    using r that by (simp add: ledger_versions_def)
qed

lemma apply_pending_skips_all:
  "\<forall>m \<in> set ms. am (Version m) \<Longrightarrow> apply_pending ev am ms c = (Ok, c)"
  by (induction ms) simp_all

lemma Apply_run:
  assumes ens: "ensureMigrationsTable ev c = (None, c1)"
      and rd: "GetAppliedMigrations ev c1 = (Inr applied, c2)"
  shows "\<exists>r c' done rest a. Apply ev ms c = (r, c')
     \<and> filter (\<lambda>m. Version m \<notin> RecVersion ` set applied) (sort_key Version ms) = done @ rest
     \<and> schema (store c') = schema (store c) @ map SQL done
     \<and> ledger_versions (store c') = ledger_versions (store c) @ map Version done
     \<and> stdout c' = stdout c @ map applied_line done
     \<and> attempted (calls c') = attempted (calls c) @ map SQL done @ a
     \<and> distinct (map Version done)
     \<and> set (map Version done) \<inter> set (ledger_versions (store c)) = {}
     \<and> (done = [] \<longrightarrow> store c' = store c1)
     \<and> schema_migrations (store c') \<noteq> None
     \<and> (r = Ok \<and> rest = [] \<and> a = []
         \<or> (\<exists>e0 m rest'. r = Err (''failed to apply migration '' @ Version m @ '': '' @ e0)
               \<and> rest = m # rest' \<and> (a = [] \<or> a = [SQL m])))"
proof -
  have A: "Apply ev ms c = apply_pending ev (appliedMap applied) (sort_key Version ms) c2"
    using ens rd by (simp add: Apply_def)
  have c2: "c2 = logged (Query SelectLedger) None c1" using read_ok(1) [OF rd] .
  have s2: "store c2 = store c1" "stdout c2 = stdout c" "schema (store c2) = schema (store c)"
    "ledger_versions (store c2) = ledger_versions (store c)"
    "attempted (calls c2) = attempted (calls c)" "schema_migrations (store c2) \<noteq> None"
    using ensure_ok(1-5) [OF ens] by (simp_all add: c2 logged_def attempted_append)
  have f: "(\<lambda>m. \<not> appliedMap applied (Version m)) = (\<lambda>m. Version m \<notin> RecVersion ` set applied)"
    by (simp add: appliedMap_iff)
  from apply_pending_run [of ev "appliedMap applied" "sort_key Version ms" c2]
  obtain r c' dn rest a where
    p: "apply_pending ev (appliedMap applied) (sort_key Version ms) c2 = (r, c')"
       "filter (\<lambda>m. \<not> appliedMap applied (Version m)) (sort_key Version ms) = dn @ rest"
       "schema (store c') = schema (store c2) @ map SQL dn"
       "ledger_versions (store c') = ledger_versions (store c2) @ map Version dn"
       "stdout c' = stdout c2 @ map applied_line dn"
       "attempted (calls c') = attempted (calls c2) @ map SQL dn @ a"
       "distinct (map Version dn)"
       "set (map Version dn) \<inter> set (ledger_versions (store c2)) = {}"
       "dn = [] \<longrightarrow> store c' = store c2"
       "schema_migrations (store c2) \<noteq> None \<longrightarrow> schema_migrations (store c') \<noteq> None"
       "r = Ok \<and> rest = [] \<and> a = []
         \<or> (\<exists>e0 m rest'. r = Err (''failed to apply migration '' @ Version m @ '': '' @ e0)
               \<and> rest = m # rest' \<and> (a = [] \<or> a = [SQL m]))"
    by blast
  have q: "Apply ev ms c = (r, c')"
       "filter (\<lambda>m. Version m \<notin> RecVersion ` set applied) (sort_key Version ms) = dn @ rest"
       "schema (store c') = schema (store c) @ map SQL dn"
       "ledger_versions (store c') = ledger_versions (store c) @ map Version dn"
       "stdout c' = stdout c @ map applied_line dn"
       "attempted (calls c') = attempted (calls c) @ map SQL dn @ a"
       "set (map Version dn) \<inter> set (ledger_versions (store c)) = {}"
       "dn = [] \<longrightarrow> store c' = store c1"
       "schema_migrations (store c') \<noteq> None"
    using p(1-6,8-10) s2 by (simp_all add: A f)
  from q p(7) p(11) show ?thesis by blast
qed

lemma Apply_ok_parts:
  assumes "Apply ev ms c = (Ok, c')"
  shows "\<exists>c1 applied c2. ensureMigrationsTable ev c = (None, c1)
           \<and> GetAppliedMigrations ev c1 = (Inr applied, c2)"
  using assms
  by (cases "ensureMigrationsTable ev c"; cases "fst (ensureMigrationsTable ev c)";
      cases "GetAppliedMigrations ev (snd (ensureMigrationsTable ev c))";
      cases "fst (GetAppliedMigrations ev (snd (ensureMigrationsTable ev c)))")
     (simp_all add: Apply_def)

lemma Apply_ok_run:
  assumes run: "Apply ev ms c = (Ok, c')"
  shows "\<exists>applied :: MigrationRecord list. RecVersion ` set applied \<subseteq> set (ledger_versions (store c))
      \<and> attempted (calls c') = attempted (calls c)
            @ map SQL (filter (\<lambda>m. Version m \<notin> RecVersion ` set applied) (sort_key Version ms))
      \<and> schema (store c') = schema (store c)
            @ map SQL (filter (\<lambda>m. Version m \<notin> RecVersion ` set applied) (sort_key Version ms))
      \<and> ledger_versions (store c') = ledger_versions (store c)
            @ map Version (filter (\<lambda>m. Version m \<notin> RecVersion ` set applied) (sort_key Version ms))
      \<and> schema_migrations (store c') \<noteq> None"
proof -
  from Apply_ok_parts [OF run] obtain c1 applied c2 where
    ens: "ensureMigrationsTable ev c = (None, c1)"
    and rd: "GetAppliedMigrations ev c1 = (Inr applied, c2)"
    by blast
  from Apply_run [OF ens rd, of ms] run obtain dn where
    q: "filter (\<lambda>m. Version m \<notin> RecVersion ` set applied) (sort_key Version ms) = dn"
       "schema (store c') = schema (store c) @ map SQL dn"
       "ledger_versions (store c') = ledger_versions (store c) @ map Version dn"
       "attempted (calls c') = attempted (calls c) @ map SQL dn"
       "schema_migrations (store c') \<noteq> None"
    by auto
  have "RecVersion ` set applied \<subseteq> set (ledger_versions (store c))"
    using read_subset(1) [OF rd] ensure_ok(4) [OF ens] by simp
  with q show ?thesis by blast
qed

lemma Apply_ok_ledger:
  assumes run: "Apply ev ms c = (Ok, c')"
  shows "Version ` set ms \<subseteq> set (ledger_versions (store c'))"
proof -
  from Apply_ok_run [OF run] obtain applied :: "MigrationRecord list" where
    a: "RecVersion ` set applied \<subseteq> set (ledger_versions (store c))"
       "ledger_versions (store c') = ledger_versions (store c)
            @ map Version (filter (\<lambda>m. Version m \<notin> RecVersion ` set applied) (sort_key Version ms))"
    by blast
  show ?thesis
  proof
    fix v assume "v \<in> Version ` set ms"
    then obtain m where m: "m \<in> set ms" "v = Version m" by blast
    show "v \<in> set (ledger_versions (store c'))"
      using a m by (cases "v \<in> RecVersion ` set applied") auto
  qed
qed

lemma Apply_store_all_applied:
  assumes all: "Version ` set ms \<subseteq> set (ledger_versions (store c))"
      and tbl: "schema_migrations (store c) \<noteq> None"
  shows "store (snd (Apply ev ms c)) = store c"
proof (cases "ensureMigrationsTable ev c")
  case (Pair r1 c1)
  have s1: "store c1 = store c"
    using ensure_store [OF tbl, of ev] Pair by simp
  show ?thesis
  proof (cases r1)
    case (Some e)
    then show ?thesis using Pair s1 by (simp add: Apply_def)
  next
    case None
    note ens = Pair [unfolded None]
    show ?thesis
    proof (cases "GetAppliedMigrations ev c1")
      case rd0: (Pair r2 c2)
      have s2: "store c2 = store c1"
        using read_store [of ev c1] rd0 by simp
      show ?thesis
      proof (cases r2)
        case (Inl e)
        then show ?thesis using ens rd0 s1 s2 by (simp add: Apply_def)
      next
        case (Inr applied)
        note rd = rd0 [unfolded Inr]
        from Apply_run [OF ens rd, of ms] obtain r c' dn rest where
          q: "Apply ev ms c = (r, c')"
             "filter (\<lambda>m. Version m \<notin> RecVersion ` set applied) (sort_key Version ms) = dn @ rest"
             "set (map Version dn) \<inter> set (ledger_versions (store c)) = {}"
             "dn = [] \<longrightarrow> store c' = store c1"
          by blast
        have "set dn \<subseteq> set ms"
          using arg_cong [OF q(2), of set] by auto
        then have "set (map Version dn) \<subseteq> set (ledger_versions (store c))"
          using all by auto
        then have "dn = []"
          using q(3) by (cases dn) auto
        then show ?thesis using q(1,4) s1 by simp
      qed
    qed
  qed
qed



lemma Apply_not_ok_if_applied_is_pending:
  assumes ens: "ensureMigrationsTable ev c = (None, c1)"
      and rd: "GetAppliedMigrations ev c1 = (Inr applied, c2)"
      and m: "m \<in> set ms" "Version m \<in> set (ledger_versions (store c))"
             "Version m \<notin> RecVersion ` set applied"
  shows "\<exists>e. fst (Apply ev ms c) = Err e"
proof -
  from Apply_run [OF ens rd, of ms] obtain r c' dn rest where
    q: "Apply ev ms c = (r, c')"
       "filter (\<lambda>m. Version m \<notin> RecVersion ` set applied) (sort_key Version ms) = dn @ rest"
       "set (map Version dn) \<inter> set (ledger_versions (store c)) = {}"
       "r = Ok \<and> rest = [] \<or> (\<exists>e. r = Err e)"
    by blast
  have "m \<in> set (dn @ rest)"
    using m(1,3) by (simp only: q(2) [symmetric]) simp
  moreover have "m \<notin> set dn"
    using q(3) m(2) by auto
  ultimately have "rest \<noteq> []" by auto
  with q(1,4) show ?thesis by auto
qed

section \<open>The Migrator\<close>



text \<open>
  C3. After a run of \<^verbatim>\<open>Apply\<close> that returned \<^verbatim>\<open>nil\<close>, in which the body of each pending
  migration was sent once, every declared version is in the ledger. A second run with
  the same migrations leaves the database as it is in every environment, and when it
  reads the ledger without a fault it skips every migration: it returns \<^verbatim>\<open>nil\<close> having
  issued the \<^verbatim>\<open>CREATE TABLE IF NOT EXISTS\<close> and the \<^verbatim>\<open>SELECT\<close> and nothing else.
\<close>

theorem Apply_twice_applies_once:
  assumes run1: "Apply ev ms c = (Ok, c1)"
  shows "(\<exists>applied :: MigrationRecord list. RecVersion ` set applied \<subseteq> set (ledger_versions (store c))
          \<and> attempted (calls c1) = attempted (calls c)
               @ map SQL (filter (\<lambda>m. Version m \<notin> RecVersion ` set applied) (sort_key Version ms))
          \<and> schema (store c1) = schema (store c)
               @ map SQL (filter (\<lambda>m. Version m \<notin> RecVersion ` set applied) (sort_key Version ms))
          \<and> ledger_versions (store c1) = ledger_versions (store c)
               @ map Version (filter (\<lambda>m. Version m \<notin> RecVersion ` set applied) (sort_key Version ms)))
       \<and> Version ` set ms \<subseteq> set (ledger_versions (store c1))
       \<and> store (snd (Apply ev2 ms c1)) = store c1
       \<and> (fault ev2 c1 (Exec CreateLedgerTable) = None \<longrightarrow>
          fault ev2 (logged (Exec CreateLedgerTable) None c1) (Query SelectLedger) = None \<longrightarrow>
          cursor_fault ev2 (logged (Exec CreateLedgerTable) None c1) = None \<longrightarrow>
            Apply ev2 ms c1 =
              (Ok, logged (Query SelectLedger) None (logged (Exec CreateLedgerTable) None c1)))"
proof -
  from Apply_ok_run [OF run1] obtain applied :: "MigrationRecord list" where
    a: "RecVersion ` set applied \<subseteq> set (ledger_versions (store c))"
       "attempted (calls c1) = attempted (calls c)
            @ map SQL (filter (\<lambda>m. Version m \<notin> RecVersion ` set applied) (sort_key Version ms))"
       "schema (store c1) = schema (store c)
            @ map SQL (filter (\<lambda>m. Version m \<notin> RecVersion ` set applied) (sort_key Version ms))"
       "ledger_versions (store c1) = ledger_versions (store c)
            @ map Version (filter (\<lambda>m. Version m \<notin> RecVersion ` set applied) (sort_key Version ms))"
       and tbl: "schema_migrations (store c1) \<noteq> None"
    by blast
  note all = Apply_ok_ledger [OF run1]
  have same: "store (snd (Apply ev2 ms c1)) = store c1"
    using Apply_store_all_applied [OF all tbl] .
  have again: "Apply ev2 ms c1 =
      (Ok, logged (Query SelectLedger) None (logged (Exec CreateLedgerTable) None c1))"
    if f1: "fault ev2 c1 (Exec CreateLedgerTable) = None"
      and f2: "fault ev2 (logged (Exec CreateLedgerTable) None c1) (Query SelectLedger) = None"
      and f3: "cursor_fault ev2 (logged (Exec CreateLedgerTable) None c1) = None"
  proof -
    let ?d1 = "logged (Exec CreateLedgerTable) None c1"
    let ?d2 = "logged (Query SelectLedger) None ?d1"
    from tbl obtain rows where rows: "schema_migrations (store c1) = Some rows" by blast
    have ens: "ensureMigrationsTable ev2 c1 = (None, ?d1)"
      using f1 rows by (simp add: ensureMigrationsTable_def exec_def)
    have rd: "GetAppliedMigrations ev2 ?d1 = (Inr (sort_key RecVersion rows), ?d2)"
      using f2 f3 rows by (simp add: GetAppliedMigrations_def scan_loop_rows logged_def)
    have "\<forall>m \<in> set ms. appliedMap (sort_key RecVersion rows) (Version m)"
      using all rows by (auto simp: appliedMap_iff ledger_versions_def)
    then have "apply_pending ev2 (appliedMap (sort_key RecVersion rows)) (sort_key Version ms) ?d2 = (Ok, ?d2)"
      by (intro apply_pending_skips_all) simp
    then show ?thesis
      using ens rd by (simp add: Apply_def)
  qed
  from a all same again show ?thesis by blast
qed

theorem Apply_twice_applies_once_witness:
  "Apply healthy declared fresh = (Ok, snd (Apply healthy declared fresh))
   \<and> Apply healthy declared (snd (Apply healthy declared fresh)) =
        (Ok, logged (Query SelectLedger) None
               (logged (Exec CreateLedgerTable) None (snd (Apply healthy declared fresh))))
   \<and> attempted (calls (snd (Apply healthy declared (snd (Apply healthy declared fresh))))) =
        [SQL m001, SQL m002, SQL m003]
   \<and> ledger_versions (store (snd (Apply healthy declared (snd (Apply healthy declared fresh))))) =
        [''001'', ''002'', ''003'']"
proof -
  have h: "Apply healthy declared fresh = (Ok, snd (Apply healthy declared fresh))"
    by (simp add: run_defs example_defs)
  have f: "fault healthy c k = None" "cursor_fault healthy c = None" for c k
    by (simp_all add: healthy_def)
  have again: "Apply healthy declared (snd (Apply healthy declared fresh)) =
        (Ok, logged (Query SelectLedger) None
               (logged (Exec CreateLedgerTable) None (snd (Apply healthy declared fresh))))"
    by (rule Apply_twice_applies_once [OF h, of healthy, THEN conjunct2, THEN conjunct2,
          THEN conjunct2, rule_format]) (rule f)+
  have x: "attempted (calls (snd (Apply healthy declared fresh))) = [SQL m001, SQL m002, SQL m003]"
    "ledger_versions (store (snd (Apply healthy declared fresh))) = [''001'', ''002'', ''003'']"
    by (simp_all add: run_defs example_defs)
  show ?thesis
    using h again x by (simp add: logged_def attempted_append)
qed



text \<open>
  C10. \<^verbatim>\<open>GetAppliedMigrations\<close> reports the errors of the query and of \<^verbatim>\<open>Scan\<close> only. When
  the stream of rows breaks after \<open>n\<close> rows, \<^verbatim>\<open>rows.Err()\<close> holds the error and the
  function returns the first \<open>n\<close> records with a \<^verbatim>\<open>nil\<close> error, the very value a
  complete read of a ledger with only these rows returns. The version of row \<open>n\<close> is
  in the ledger and not in the applied set, and a run of \<^verbatim>\<open>Apply\<close> that declares such a
  version treats it as pending and ends with an error.
\<close>

theorem GetAppliedMigrations_ignores_rows_err:
  assumes qry: "fault ev c (Query SelectLedger) = None"
      and tbl: "schema_migrations (store c) = Some rows"
      and brk: "cursor_fault ev c = Some (StreamBreaks n e)"
  shows "GetAppliedMigrations ev c =
           (Inr (take n (sort_key RecVersion rows)), logged (Query SelectLedger) None c)
       \<and> snd (deliver (cursor_fault ev c) (sort_key RecVersion rows)) = Some e
       \<and> (\<forall>ev' c0. fault ev' c0 (Query SelectLedger) = None \<longrightarrow> cursor_fault ev' c0 = None \<longrightarrow>
             schema_migrations (store c0) = Some (take n (sort_key RecVersion rows)) \<longrightarrow>
             fst (GetAppliedMigrations ev' c0) = fst (GetAppliedMigrations ev c))
       \<and> (n < length rows \<longrightarrow> distinct (map RecVersion rows) \<longrightarrow>
             RecVersion (sort_key RecVersion rows ! n) \<in> set (ledger_versions (store c))
           \<and> \<not> appliedMap (take n (sort_key RecVersion rows)) (RecVersion (sort_key RecVersion rows ! n)))
       \<and> (\<forall>c0 ms m. ensureMigrationsTable ev c0 = (None, c) \<longrightarrow> m \<in> set ms \<longrightarrow>
             Version m \<in> set (ledger_versions (store c)) \<longrightarrow>
             Version m \<notin> RecVersion ` set (take n (sort_key RecVersion rows)) \<longrightarrow>
             (\<exists>e'. fst (Apply ev ms c0) = Err e'))"
proof -
  let ?s = "sort_key RecVersion rows"
  have g: "GetAppliedMigrations ev c = (Inr (take n ?s), logged (Query SelectLedger) None c)"
    using qry tbl brk by (simp add: GetAppliedMigrations_def scan_loop_rows)
  have d: "snd (deliver (cursor_fault ev c) ?s) = Some e"
    using brk by simp
  have st: "sort_key RecVersion (take n ?s) = take n ?s"
  proof (rule sort_key_id_if_sorted)
    have "sorted (map RecVersion ?s)" by simp
    then show "sorted (map RecVersion (take n ?s))"
      by (simp only: take_map [symmetric] sorted_wrt_take)
  qed
  have same: "\<forall>ev' c0. fault ev' c0 (Query SelectLedger) = None \<longrightarrow> cursor_fault ev' c0 = None \<longrightarrow>
             schema_migrations (store c0) = Some (take n ?s) \<longrightarrow>
             fst (GetAppliedMigrations ev' c0) = fst (GetAppliedMigrations ev c)"
    using g st by (simp add: GetAppliedMigrations_def scan_loop_rows)
  have miss: "RecVersion (?s ! n) \<in> set (ledger_versions (store c))
           \<and> \<not> appliedMap (take n ?s) (RecVersion (?s ! n))"
    if n: "n < length rows" and dist: "distinct (map RecVersion rows)"
  proof
    have "?s ! n \<in> set ?s" using n by (simp del: set_sort)
    then show "RecVersion (?s ! n) \<in> set (ledger_versions (store c))"
      using tbl by (simp add: ledger_versions_def)
    have dm: "distinct (map RecVersion ?s)"
      using dist by (simp add: map_sort_key)
    have "map RecVersion ?s ! n \<notin> set (take n (map RecVersion ?s))"
      using dm n by (metis distinct_take id_take_nth_drop length_map length_sort
            not_distinct_conv_prefix take_Suc_conv_app_nth append_Nil2 distinct_append distinct.simps(2)
            disjoint_insert(1) list.simps(15) Int_commute)
    then show "\<not> appliedMap (take n ?s) (RecVersion (?s ! n))"
      using n by (simp add: appliedMap_iff take_map [symmetric] del: set_map)
         (simp add: take_map)
  qed
  have fails: "\<exists>e'. fst (Apply ev ms c0) = Err e'"
    if ens: "ensureMigrationsTable ev c0 = (None, c)" and m: "m \<in> set ms"
      "Version m \<in> set (ledger_versions (store c))"
      "Version m \<notin> RecVersion ` set (take n ?s)"
    for c0 ms m
    using Apply_not_ok_if_applied_is_pending [OF ens g m(1) _ m(3)] m(2) ensure_ok(4) [OF ens]
    by simp
  from g d same miss fails show ?thesis by blast
qed

theorem GetAppliedMigrations_ignores_rows_err_witness:
  "fault stream_breaks (snd (ensureMigrationsTable stream_breaks (snd (Apply healthy [m001] fresh))))
      (Query SelectLedger) = None
   \<and> schema_migrations (store (snd (ensureMigrationsTable stream_breaks (snd (Apply healthy [m001] fresh)))))
      = Some [\<lparr>RecVersion = ''001'', AppliedAt = 4, RecDescription = ''users''\<rparr>]
   \<and> cursor_fault stream_breaks (snd (ensureMigrationsTable stream_breaks (snd (Apply healthy [m001] fresh))))
      = Some (StreamBreaks 0 ''connection reset'')
   \<and> fst (GetAppliedMigrations stream_breaks
        (snd (ensureMigrationsTable stream_breaks (snd (Apply healthy [m001] fresh))))) = Inr []
   \<and> fst (Apply stream_breaks [m001] (snd (Apply healthy [m001] fresh))) =
        Err (''failed to apply migration 001: failed to record migration: '' @
             ''duplicate key value violates unique constraint schema_migrations_pkey'')
   \<and> attempted (calls (snd (Apply stream_breaks [m001] (snd (Apply healthy [m001] fresh))))) =
        [SQL m001, SQL m001]
   \<and> schema (store (snd (Apply stream_breaks [m001] (snd (Apply healthy [m001] fresh))))) = [SQL m001]"
proof -
  let ?c = "snd (ensureMigrationsTable stream_breaks (snd (Apply healthy [m001] fresh)))"
  have h1: "fault stream_breaks ?c (Query SelectLedger) = None"
    by (simp add: run_defs example_defs)
  have h2: "schema_migrations (store ?c)
      = Some [\<lparr>RecVersion = ''001'', AppliedAt = 4, RecDescription = ''users''\<rparr>]"
    by (simp add: run_defs example_defs)
  have h3: "cursor_fault stream_breaks ?c = Some (StreamBreaks 0 ''connection reset'')"
    by (simp add: run_defs example_defs)
  have x: "fst (Apply stream_breaks [m001] (snd (Apply healthy [m001] fresh))) =
        Err (''failed to apply migration 001: failed to record migration: '' @
             ''duplicate key value violates unique constraint schema_migrations_pkey'')"
    "attempted (calls (snd (Apply stream_breaks [m001] (snd (Apply healthy [m001] fresh))))) =
        [SQL m001, SQL m001]"
    "schema (store (snd (Apply stream_breaks [m001] (snd (Apply healthy [m001] fresh))))) = [SQL m001]"
    by (simp_all add: run_defs example_defs)
  have g: "fst (GetAppliedMigrations stream_breaks ?c) = Inr []"
    using GetAppliedMigrations_ignores_rows_err [OF h1 h2 h3] by simp
  show ?thesis
    using h1 h2 h3 g x by blast
qed

section \<open>The RLSManager\<close>


lemma exec_policy:
  "exec ev (CreatePolicyStmt cfg) c =
     (case fault ev c (Exec (CreatePolicyStmt cfg)) of
        Some e \<Rightarrow> (Some e, logged (Exec (CreatePolicyStmt cfg)) (Some e) c)
      | None \<Rightarrow>
          if (Name cfg, Table cfg) \<in> set (map (\<lambda>p. (Name p, Table p)) (policies (store c)))
          then (Some ''policy already exists'',
                logged (Exec (CreatePolicyStmt cfg)) (Some ''policy already exists'') c)
          else (None, logged (Exec (CreatePolicyStmt cfg)) None
                  (c\<lparr>store := (store c)\<lparr>policies := policies (store c) @ [cfg]\<rparr>\<rparr>)))"
  by (simp add: exec_def split: option.splits)



text \<open>
  C8. \<^verbatim>\<open>SetupServiceRLS\<close>: when enabling row-level security fails, that error is returned
  and nothing else is issued. Otherwise exactly two statements are issued, the
  \<^verbatim>\<open>ALTER TABLE ... ENABLE ROW LEVEL SECURITY\<close> and one \<^verbatim>\<open>CREATE POLICY\<close> for the role
  \<open>svc\<close> on the table, with command \<^verbatim>\<open>ALL\<close> when \<open>full\<close> holds and \<^verbatim>\<open>SELECT\<close> otherwise,
  and the predicate \<^verbatim>\<open>true\<close>; on success that policy is the one policy added.
\<close>

theorem SetupServiceRLS_one_policy:
  "(\<forall>e. fault ev c (Exec (AlterEnableRLS t)) = Some e \<longrightarrow>
       SetupServiceRLS ev svc t full c =
         (Some (''failed to enable RLS on '' @ t @ '': '' @ e), logged (Exec (AlterEnableRLS t)) (Some e) c))
   \<and> (fault ev c (Exec (AlterEnableRLS t)) = None \<longrightarrow>
       (\<exists>r x c'. SetupServiceRLS ev svc t full c = (r, c')
          \<and> calls c' = calls c @ [(Exec (AlterEnableRLS t), None),
               (Exec (CreatePolicyStmt
                  \<lparr>Name = svc @ (if full then ''_all_'' else ''_select_'') @ t, Table = t,
                    Command = (if full then ''ALL'' else ''SELECT''), Role = svc,
                    Using = ''true'', WithCheck = []\<rparr>), x)]
          \<and> t \<in> set (rls_enabled (store c'))
          \<and> (r = None \<longrightarrow> x = None \<and> policies (store c') = policies (store c) @
                 [\<lparr>Name = svc @ (if full then ''_all_'' else ''_select_'') @ t, Table = t,
                    Command = (if full then ''ALL'' else ''SELECT''), Role = svc,
                    Using = ''true'', WithCheck = []\<rparr>])
          \<and> (\<forall>e. r = Some e \<longrightarrow> x \<noteq> None \<and> policies (store c') = policies (store c))))"
proof -
  let ?pol = "\<lparr>Name = svc @ (if full then ''_all_'' else ''_select_'') @ t, Table = t,
                    Command = (if full then ''ALL'' else ''SELECT''), Role = svc,
                    Using = ''true'', WithCheck = []\<rparr>"
  have pol: "service_policy svc t full = ?pol"
    by (simp add: service_policy_def)
  have fails: "SetupServiceRLS ev svc t full c =
         (Some (''failed to enable RLS on '' @ t @ '': '' @ e), logged (Exec (AlterEnableRLS t)) (Some e) c)"
    if "fault ev c (Exec (AlterEnableRLS t)) = Some e" for e
    using that by (simp add: SetupServiceRLS_def EnableRLS_def exec_def)
  have works: "\<exists>r x c'. SetupServiceRLS ev svc t full c = (r, c')
          \<and> calls c' = calls c @ [(Exec (AlterEnableRLS t), None), (Exec (CreatePolicyStmt ?pol), x)]
          \<and> t \<in> set (rls_enabled (store c'))
          \<and> (r = None \<longrightarrow> x = None \<and> policies (store c') = policies (store c) @ [?pol])
          \<and> (\<forall>e. r = Some e \<longrightarrow> x \<noteq> None \<and> policies (store c') = policies (store c))"
    if ok: "fault ev c (Exec (AlterEnableRLS t)) = None"
  proof -
    define c1 where "c1 = logged (Exec (AlterEnableRLS t)) None
        (c\<lparr>store := (if t \<in> set (rls_enabled (store c)) then store c
                      else (store c)\<lparr>rls_enabled := rls_enabled (store c) @ [t]\<rparr>)\<rparr>)"
    have en: "EnableRLS ev t c = (None, c1)"
      using ok by (simp add: EnableRLS_def exec_def c1_def)
    have c1: "calls c1 = calls c @ [(Exec (AlterEnableRLS t), None)]"
      "t \<in> set (rls_enabled (store c1))" "policies (store c1) = policies (store c)"
      by (simp_all add: c1_def logged_def)
    define dup where "dup = ((Name ?pol, Table ?pol) \<in> set (map (\<lambda>p. (Name p, Table p)) (policies (store c1))))"
    show ?thesis
    proof (cases "fault ev c1 (Exec (CreatePolicyStmt ?pol))")
      case (Some err)
      then have "SetupServiceRLS ev svc t full c =
          (Some (''failed to create policy '' @ Name ?pol @ '': '' @ err),
           logged (Exec (CreatePolicyStmt ?pol)) (Some err) c1)"
        using en by (simp add: SetupServiceRLS_def CreatePolicy_def pol exec_policy)
      then show ?thesis
        using c1 by (simp add: logged_def)
    next
      case None
      show ?thesis
      proof (cases dup)
        case True
        then have "SetupServiceRLS ev svc t full c =
          (Some (''failed to create policy '' @ Name ?pol @ '': '' @ ''policy already exists''),
           logged (Exec (CreatePolicyStmt ?pol)) (Some ''policy already exists'') c1)"
          using en None by (simp add: SetupServiceRLS_def CreatePolicy_def pol exec_policy dup_def)
        then show ?thesis
          using c1 by (simp add: logged_def)
      next
        case False
        then have "SetupServiceRLS ev svc t full c =
          (None, logged (Exec (CreatePolicyStmt ?pol)) None
                   (c1\<lparr>store := (store c1)\<lparr>policies := policies (store c1) @ [?pol]\<rparr>\<rparr>))"
          using en None by (simp add: SetupServiceRLS_def CreatePolicy_def pol exec_policy dup_def)
        then show ?thesis
          using c1 by (simp add: logged_def)
      qed
    qed
  qed
  from fails works show ?thesis by blast
qed

theorem SetupServiceRLS_one_policy_witness:
  "SetupServiceRLS healthy ''reader'' ''users'' False fresh =
     (None,
      \<lparr>store = empty_db\<lparr>rls_enabled := [''users''],
          policies := [\<lparr>Name = ''reader_select_users'', Table = ''users'', Command = ''SELECT'',
                        Role = ''reader'', Using = ''true'', WithCheck = []\<rparr>]\<rparr>,
        calls = [(Exec (AlterEnableRLS ''users''), None),
                 (Exec (CreatePolicyStmt \<lparr>Name = ''reader_select_users'', Table = ''users'',
                     Command = ''SELECT'', Role = ''reader'', Using = ''true'', WithCheck = []\<rparr>), None)],
        stdout = []\<rparr>)
   \<and> SetupServiceRLS healthy ''writer'' ''users'' True fresh =
     (None,
      \<lparr>store = empty_db\<lparr>rls_enabled := [''users''],
          policies := [\<lparr>Name = ''writer_all_users'', Table = ''users'', Command = ''ALL'',
                        Role = ''writer'', Using = ''true'', WithCheck = []\<rparr>]\<rparr>,
        calls = [(Exec (AlterEnableRLS ''users''), None),
                 (Exec (CreatePolicyStmt \<lparr>Name = ''writer_all_users'', Table = ''users'',
                     Command = ''ALL'', Role = ''writer'', Using = ''true'', WithCheck = []\<rparr>), None)],
        stdout = []\<rparr>)
   \<and> SetupServiceRLS refuses_rls ''reader'' ''users'' False fresh =
     (Some ''failed to enable RLS on users: refused'',
      \<lparr>store = empty_db, calls = [(Exec (AlterEnableRLS ''users''), Some ''refused'')], stdout = []\<rparr>)"
  using SetupServiceRLS_one_policy [of healthy fresh "''users''" "''reader''" False]
        SetupServiceRLS_one_policy [of healthy fresh "''users''" "''writer''" True]
        SetupServiceRLS_one_policy [of refuses_rls fresh "''users''" "''reader''" False]
  by (simp add: SetupServiceRLS_def EnableRLS_def CreatePolicy_def service_policy_def exec_def logged_def
        refuses_rls_def example_defs)

section \<open>Roles\<close>










section \<open>The action migrate\<close>

lemma exec_result:
  "\<exists>r c'. exec ev st c = (r, c') \<and> calls c' = calls c @ [(Exec st, r)]"
  by (simp add: exec_def logged_def split: option.splits sum.splits)

lemma run_in_order_calls:
  "\<exists>n. calls (snd (run_in_order ev ss c)) =
         calls c @ map (\<lambda>s. (Exec s, None)) (take n ss)
           @ (case fst (run_in_order ev ss c) of None \<Rightarrow> []
              | Some (s, e) \<Rightarrow> [(Exec s, Some e)])
     \<and> (case fst (run_in_order ev ss c) of None \<Rightarrow> n = length ss
         | Some (s, e) \<Rightarrow> n < length ss \<and> s = ss ! n)"
proof (induction ss arbitrary: c)
  case Nil
  show ?case by simp
next
  case (Cons s ss)
  from exec_result [of ev s c] obtain r c1 where
    e: "exec ev s c = (r, c1)" "calls c1 = calls c @ [(Exec s, r)]" by blast
  show ?case
  proof (cases r)
    case (Some err)
    have "run_in_order ev (s # ss) c = (Some (s, err), c1)"
      using e(1) Some by simp
    then show ?thesis
      using e(2) Some by (intro exI [of _ 0]) simp
  next
    case None
    have step: "run_in_order ev (s # ss) c = run_in_order ev ss c1"
      using e(1) None by simp
    from Cons.IH [of c1] obtain n where
      ih: "calls (snd (run_in_order ev ss c1)) =
             calls c1 @ map (\<lambda>s. (Exec s, None)) (take n ss)
               @ (case fst (run_in_order ev ss c1) of None \<Rightarrow> []
                  | Some (s, e) \<Rightarrow> [(Exec s, Some e)])"
          "case fst (run_in_order ev ss c1) of None \<Rightarrow> n = length ss
            | Some (s, e) \<Rightarrow> n < length ss \<and> s = ss ! n"
      by (elim exE conjE)
    show ?thesis
      unfolding step
      using ih e(2) None
      by (intro exI [of _ "Suc n"]) (simp split: option.splits prod.splits)
  qed
qed

lemma run_step:
  assumes "\<And>c1. snd (f c1) = snd (run_in_order ev ss c1)
                \<and> (fst (f c1) = None \<longleftrightarrow> fst (run_in_order ev ss c1) = None)"
  shows "snd (case exec ev s c of (Some e, c') \<Rightarrow> (Some (g e), c') | (None, c') \<Rightarrow> f c')
           = snd (run_in_order ev (s # ss) c)
       \<and> (fst (case exec ev s c of (Some e, c') \<Rightarrow> (Some (g e), c') | (None, c') \<Rightarrow> f c') = None
            \<longleftrightarrow> fst (run_in_order ev (s # ss) c) = None)"
proof (cases "exec ev s c")
  case (Pair r c1)
  then show ?thesis
    using assms [of c1] by (cases r) simp_all
qed

lemma run_wrap:
  assumes "snd F = snd R \<and> (fst F = None \<longleftrightarrow> fst R = None)"
  shows "snd (case F of (Some e, c') \<Rightarrow> (Some (g e), c') | (None, c') \<Rightarrow> (None, c')) = snd R
       \<and> (fst (case F of (Some e, c') \<Rightarrow> (Some (g e), c') | (None, c') \<Rightarrow> (None, c')) = None
            \<longleftrightarrow> fst R = None)"
proof (cases F)
  case (Pair r c1)
  then show ?thesis
    using assms by (cases r) simp_all
qed

lemma create_triggers_run:
  "snd (create_triggers ev ts c) =
     snd (run_in_order ev (map (\<lambda>t. RecreateTrigger (''update_'' @ t @ ''_updated_at'') t) ts) c)
   \<and> (fst (create_triggers ev ts c) = None \<longleftrightarrow>
      fst (run_in_order ev (map (\<lambda>t. RecreateTrigger (''update_'' @ t @ ''_updated_at'') t) ts) c) = None)"
proof (induction ts arbitrary: c)
  case Nil
  show ?case by simp
next
  case (Cons t ts)
  show ?case
    unfolding create_triggers.simps list.map
    by (rule run_step) (rule Cons.IH)
qed

lemma addCustomConstraints_run:
  "snd (addCustomConstraints ev c) = snd (run_in_order ev (drop 3 migrate_statements) c)
   \<and> (fst (addCustomConstraints ev c) = None \<longleftrightarrow>
      fst (run_in_order ev (drop 3 migrate_statements) c) = None)"
proof -
  have d: "drop 3 migrate_statements =
      AddConstraintIfAbsent ''users'' ''users_email_format_check''
      # AddConstraintIfAbsent ''folders'' ''folders_no_self_parent_check''
      # CreateOrReplaceFunction ''update_updated_at_column''
      # map (\<lambda>t. RecreateTrigger (''update_'' @ t @ ''_updated_at'') t) [''users'', ''files'', ''folders'']"
    by (simp add: migrate_statements_def)
  show ?thesis
    unfolding d addCustomConstraints_def
    by (rule run_step, rule run_step, rule run_step, rule create_triggers_run)
qed

lemma AutoMigrate_run_in_order:
  "snd (AutoMigrate ev c) = snd (run_in_order ev migrate_statements c)
   \<and> (fst (AutoMigrate ev c) = None \<longleftrightarrow> fst (run_in_order ev migrate_statements c) = None)"
proof -
  have d: "migrate_statements =
      CreateExtension ''uuid-ossp'' # CreateExtension ''pgcrypto''
      # GormAutoMigrate [''users'', ''folders'', ''files''] # drop 3 migrate_statements"
    by (simp add: migrate_statements_def)
  show ?thesis
    apply (subst (1 2) d)
    unfolding AutoMigrate_def
    by (rule run_step, rule run_step, rule run_step, rule run_wrap, rule addCustomConstraints_run)
qed

lemma add_object_present: "ob \<in> set (objects d) \<Longrightarrow> add_object ob d = d"
  by (simp add: add_object_def)

lemma objects_add_object: "set (objects (add_object ob d)) = insert ob (set (objects d))"
  by (auto simp: add_object_def)

lemma fold_add_present: "set obs \<subseteq> set (objects d) \<Longrightarrow> fold add_object obs d = d"
  by (induction obs arbitrary: d) (simp_all add: add_object_present)

lemma objects_fold: "set (objects (fold add_object obs d)) = set obs \<union> set (objects d)"
  by (induction obs arbitrary: d) (auto simp: objects_add_object)

lemma AutoMigrate_healthy:
  assumes h: "\<forall>c k. fault ev c k = None"
  shows "fst (AutoMigrate ev c) = None"
    "store (snd (AutoMigrate ev c)) = fold add_object migrate_objects (store c)"
  using h
  by (simp_all add: AutoMigrate_def addCustomConstraints_def exec_def logged_def migrate_objects_def)

lemma AutoMigrate_healthy_calls:
  assumes h: "\<forall>c k. fault ev c k = None"
  shows "calls (snd (AutoMigrate ev c)) = calls c @ map (\<lambda>s. (Exec s, None)) migrate_statements"
  using h
  by (simp add: AutoMigrate_def addCustomConstraints_def exec_def logged_def migrate_statements_def)

lemma ledger_fold_add_object:
  "schema_migrations (fold add_object obs d) = schema_migrations d"
  by (induction obs arbitrary: d) (simp_all add: add_object_def)

text \<open>
  C6 (as amended). The action \<^verbatim>\<open>migrate\<close> issues the statements of \<open>migrate_statements\<close> in
  their order and stops at the first that fails: the two \<^verbatim>\<open>CREATE EXTENSION IF NOT
  EXISTS\<close>, GORM's \<^verbatim>\<open>AutoMigrate\<close> of the three models, the two constraints inside their
  \<^verbatim>\<open>IF NOT EXISTS\<close> checks, the function and the three triggers. It returns \<^verbatim>\<open>nil\<close> exactly
  when all of them succeeded. Without faults it succeeds, leaves the declared objects
  in the catalogue, and a second run leaves the database as the first left it.
\<close>

theorem AutoMigrate_sequence:
  "snd (AutoMigrate ev c) = snd (run_in_order ev migrate_statements c)
   \<and> (fst (AutoMigrate ev c) = None \<longleftrightarrow> fst (run_in_order ev migrate_statements c) = None)
   \<and> (\<exists>n. calls (snd (AutoMigrate ev c)) =
            calls c @ map (\<lambda>s. (Exec s, None)) (take n migrate_statements)
              @ (case fst (run_in_order ev migrate_statements c) of None \<Rightarrow> []
                 | Some (s, e) \<Rightarrow> [(Exec s, Some e)])
          \<and> (case fst (run_in_order ev migrate_statements c) of
                None \<Rightarrow> n = length migrate_statements
              | Some (s, e) \<Rightarrow> n < length migrate_statements \<and> s = migrate_statements ! n))
   \<and> ((\<forall>c k. fault ev c k = None) \<longrightarrow>
         fst (AutoMigrate ev c) = None
       \<and> store (snd (AutoMigrate ev c)) = fold add_object migrate_objects (store c)
       \<and> store (snd (AutoMigrate ev (snd (AutoMigrate ev c)))) = store (snd (AutoMigrate ev c)))"
proof -
  note r = AutoMigrate_run_in_order [of ev c]
  have shape: "\<exists>n. calls (snd (AutoMigrate ev c)) =
            calls c @ map (\<lambda>s. (Exec s, None)) (take n migrate_statements)
              @ (case fst (run_in_order ev migrate_statements c) of None \<Rightarrow> []
                 | Some (s, e) \<Rightarrow> [(Exec s, Some e)])
          \<and> (case fst (run_in_order ev migrate_statements c) of
                None \<Rightarrow> n = length migrate_statements
              | Some (s, e) \<Rightarrow> n < length migrate_statements \<and> s = migrate_statements ! n)"
    using run_in_order_calls [of ev migrate_statements c]
    by (simp only: r [THEN conjunct1])
  have again: "fst (AutoMigrate ev c) = None
       \<and> store (snd (AutoMigrate ev c)) = fold add_object migrate_objects (store c)
       \<and> store (snd (AutoMigrate ev (snd (AutoMigrate ev c)))) = store (snd (AutoMigrate ev c))"
    if h: "\<forall>c k. fault ev c k = None"
  proof -
    have "fold add_object migrate_objects (fold add_object migrate_objects (store c))
            = fold add_object migrate_objects (store c)"
      by (rule fold_add_present) (simp add: objects_fold)
    then show ?thesis
      by (simp add: AutoMigrate_healthy [OF h])
  qed
  from r shape again show ?thesis by blast
qed

theorem AutoMigrate_sequence_witness:
  "fst (AutoMigrate healthy fresh) = None
   \<and> objects (store (snd (AutoMigrate healthy fresh))) = migrate_objects
   \<and> store (snd (AutoMigrate healthy (snd (AutoMigrate healthy fresh)))) =
       store (snd (AutoMigrate healthy fresh))
   \<and> AutoMigrate refuses_automigrate fresh =
       (Some ''failed to auto-migrate models: refused'',
        \<lparr>store = empty_db\<lparr>objects := [Extension ''uuid-ossp'', Extension ''pgcrypto'']\<rparr>,
          calls = [(Exec (CreateExtension ''uuid-ossp''), None),
                   (Exec (CreateExtension ''pgcrypto''), None),
                   (Exec (GormAutoMigrate [''users'', ''folders'', ''files'']), Some ''refused'')],
          stdout = []\<rparr>)"
proof -
  have f: "\<forall>c k. fault healthy c k = None" by (simp add: healthy_def)
  note t = AutoMigrate_sequence [of healthy fresh, THEN conjunct2, THEN conjunct2, THEN conjunct2,
      THEN mp, OF f]
  have o: "objects (fold add_object migrate_objects (store fresh)) = migrate_objects"
    by (simp add: migrate_objects_def add_object_def fresh_def empty_db_def)
  have o': "objects (store (snd (AutoMigrate healthy fresh))) = migrate_objects"
    by (simp only: t [THEN conjunct2, THEN conjunct1] o)
  have x: "AutoMigrate refuses_automigrate fresh =
       (Some ''failed to auto-migrate models: refused'',
        \<lparr>store = empty_db\<lparr>objects := [Extension ''uuid-ossp'', Extension ''pgcrypto'']\<rparr>,
          calls = [(Exec (CreateExtension ''uuid-ossp''), None),
                   (Exec (CreateExtension ''pgcrypto''), None),
                   (Exec (GormAutoMigrate [''users'', ''folders'', ''files'']), Some ''refused'')],
          stdout = []\<rparr>)"
    by (simp add: AutoMigrate_def exec_def logged_def add_object_def refuses_automigrate_def
          failing_def healthy_def fresh_def empty_db_def)
  show ?thesis
    by (intro conjI) (rule t [THEN conjunct1] o' t [THEN conjunct2, THEN conjunct2] x)+
qed

text \<open>
  C6 (as stated) fails: on an empty database without faults the action \<^verbatim>\<open>migrate\<close> succeeds
  with nine statements, none of them a statement of the \<^verbatim>\<open>Migrator\<close>; no transaction
  begins and the ledger table does not exist afterwards, while a run of the
  \<^verbatim>\<open>Migrator\<close>, even over no migrations, creates and reads the ledger.
\<close>

theorem migrate_action_runs_no_Migrator:
  "fst (AutoMigrate healthy fresh) = None
   \<and> map fst (calls (snd (AutoMigrate healthy fresh))) =
       [Exec (CreateExtension ''uuid-ossp''), Exec (CreateExtension ''pgcrypto''),
        Exec (GormAutoMigrate [''users'', ''folders'', ''files'']),
        Exec (AddConstraintIfAbsent ''users'' ''users_email_format_check''),
        Exec (AddConstraintIfAbsent ''folders'' ''folders_no_self_parent_check''),
        Exec (CreateOrReplaceFunction ''update_updated_at_column''),
        Exec (RecreateTrigger ''update_users_updated_at'' ''users''),
        Exec (RecreateTrigger ''update_files_updated_at'' ''files''),
        Exec (RecreateTrigger ''update_folders_updated_at'' ''folders'')]
   \<and> Exec CreateLedgerTable \<notin> set (map fst (calls (snd (AutoMigrate healthy fresh))))
   \<and> BeginTx \<notin> set (map fst (calls (snd (AutoMigrate healthy fresh))))
   \<and> schema_migrations (store (snd (AutoMigrate healthy fresh))) = None
   \<and> map fst (calls (snd (Apply healthy [] fresh))) = [Exec CreateLedgerTable, Query SelectLedger]
   \<and> schema_migrations (store (snd (Apply healthy [] fresh))) = Some []"
proof -
  have f: "\<forall>c k. fault healthy c k = None" by (simp add: healthy_def)
  have a1: "fst (AutoMigrate healthy fresh) = None"
    by (rule AutoMigrate_healthy(1) [OF f])
  have a2: "map fst (calls (snd (AutoMigrate healthy fresh))) =
       [Exec (CreateExtension ''uuid-ossp''), Exec (CreateExtension ''pgcrypto''),
        Exec (GormAutoMigrate [''users'', ''folders'', ''files'']),
        Exec (AddConstraintIfAbsent ''users'' ''users_email_format_check''),
        Exec (AddConstraintIfAbsent ''folders'' ''folders_no_self_parent_check''),
        Exec (CreateOrReplaceFunction ''update_updated_at_column''),
        Exec (RecreateTrigger ''update_users_updated_at'' ''users''),
        Exec (RecreateTrigger ''update_files_updated_at'' ''files''),
        Exec (RecreateTrigger ''update_folders_updated_at'' ''folders'')]"
    by (simp add: AutoMigrate_healthy_calls [OF f] migrate_statements_def fresh_def)
  have a3: "Exec CreateLedgerTable \<notin> set (map fst (calls (snd (AutoMigrate healthy fresh))))"
    "BeginTx \<notin> set (map fst (calls (snd (AutoMigrate healthy fresh))))"
    by (simp_all only: a2) simp_all
  have a4: "schema_migrations (store (snd (AutoMigrate healthy fresh))) = None"
    by (simp add: AutoMigrate_healthy(2) [OF f] ledger_fold_add_object fresh_def empty_db_def)
  have a5: "map fst (calls (snd (Apply healthy [] fresh))) = [Exec CreateLedgerTable, Query SelectLedger]"
    "schema_migrations (store (snd (Apply healthy [] fresh))) = Some []"
    by (simp_all add: run_defs example_defs)
  show ?thesis
    by (intro conjI) (rule a1 a2 a3 a4 a5)+
qed

end
